theory Spec2Isabelle
  imports Main "HOL-Library.Word"
begin

section \<open>Characters, C strings and the character classes of \<^verbatim>\<open>ctype.h\<close>\<close>

text \<open>
  A C \<^verbatim>\<open>char\<close> is an Isabelle \<^typ>\<open>char\<close> (one byte). The terminator \<^verbatim>\<open>'\0'\<close> is
  \<open>NUL\<close>.
\<close>

definition NUL :: char where
  "NUL = CHR 0x00"

text \<open>
  A buffer handed to the lexer is a \<^typ>\<open>string\<close>: the bytes of the allocation before
  its final terminator. The allocation therefore holds \<open>length s + 1\<close> bytes, the last
  one being \<open>NUL\<close>. A read at index \<open>length s\<close> yields the terminator, a read beyond it
  leaves the allocation: that is undefined behaviour in C and the fault \<open>OutOfBounds\<close>
  here.
\<close>

datatype fault = OutOfBounds

definition read_at :: "string \<Rightarrow> nat \<Rightarrow> fault + char" where
  "read_at s i =
     (if i < length s then Inr (s ! i)
      else if i = length s then Inr NUL
      else Inl OutOfBounds)"

text \<open>\<^verbatim>\<open>strlen\<close>: the number of bytes before the first terminator.\<close>

definition strlen :: "string \<Rightarrow> nat" where
  "strlen s = length (takeWhile (\<lambda>c. c \<noteq> NUL) s)"

text \<open>
  \<^verbatim>\<open>isalnum\<close> and \<^verbatim>\<open>isalpha\<close> of the C library, in the "C" locale: the ASCII digits and
  letters. The terminator and the bytes beyond ASCII are in neither class.
\<close>

definition isdigit :: "char \<Rightarrow> bool" where
  "isdigit c = (48 \<le> (of_char c :: nat) \<and> (of_char c :: nat) \<le> 57)"

definition isalpha :: "char \<Rightarrow> bool" where
  "isalpha c =
     ((65 \<le> (of_char c :: nat) \<and> (of_char c :: nat) \<le> 90) \<or>
      (97 \<le> (of_char c :: nat) \<and> (of_char c :: nat) \<le> 122))"

definition isalnum :: "char \<Rightarrow> bool" where
  "isalnum c = (isalpha c \<or> isdigit c)"

text \<open>
  Modelled from the spec: \<^verbatim>\<open>isaalpha\<close>, which \<^verbatim>\<open>Frost_nextToken\<close> calls, is declared
  neither in the repository nor in the C library. The spec says that an identifier
  starts at a character that is "alphabetic or underscore". \<open>Frost_nextToken\<close> below
  takes the classifier as a parameter; \<open>isaalpha_spec\<close> is the spec's reading of it.
\<close>

definition isaalpha_spec :: "char \<Rightarrow> bool" where
  "isaalpha_spec c = (isalpha c \<or> c = CHR ''_'')"

section \<open>Constants of \<^verbatim>\<open>utils.h\<close> and \<^verbatim>\<open>errno.h\<close>\<close>

definition FUNCTION_SUCESS :: int where
  "FUNCTION_SUCESS = 0"

text \<open>\<^verbatim>\<open>ENOMEM\<close> of \<^verbatim>\<open>errno.h\<close> (12 on Linux).\<close>

definition ENOMEM :: int where
  "ENOMEM = 12"

text \<open>The macro \<^verbatim>\<open>MIN(a, b) = ((a) < (b) ? (a) : (b))\<close>.\<close>

definition MIN_macro :: "nat \<Rightarrow> nat \<Rightarrow> nat" where
  "MIN_macro param_a param_b = (if param_a < param_b then param_a else param_b)"

section \<open>Tokens (\<^verbatim>\<open>token.h\<close>, \<^verbatim>\<open>token.c\<close>)\<close>

datatype token_type_t =
    TOKEN_ID
  | TOKEN_IF | TOKEN_ELSE | TOKEN_WHILE | TOKEN_FOR | TOKEN_RETURN | TOKEN_INT
  | TOKEN_FLOAT | TOKEN_CHAR | TOKEN_VOID | TOKEN_STRUCT | TOKEN_CONST
  | TOKEN_IDENTIFIER
  | TOKEN_LITERAL_INT | TOKEN_LITERAL_FLOAT | TOKEN_LITERAL_CHAR | TOKEN_LITERAL_STRING
  | TOKEN_PLUS | TOKEN_MINUS | TOKEN_MULTIPLY | TOKEN_DIVIDE | TOKEN_MODULO
  | TOKEN_EQUAL | TOKEN_NOT_EQUAL | TOKEN_LESS | TOKEN_GREATER | TOKEN_LESS_EQUAL
  | TOKEN_GREATER_EQUAL
  | TOKEN_AND | TOKEN_OR | TOKEN_NOT
  | TOKEN_ASSIGN | TOKEN_PLUS_ASSIGN | TOKEN_MINUS_ASSIGN | TOKEN_MULTIPLY_ASSIGN
  | TOKEN_DIVIDE_ASSIGN
  | TOKEN_BITWISE_AND | TOKEN_BITWISE_OR | TOKEN_BITWISE_XOR | TOKEN_BITWISE_NOT
  | TOKEN_LEFT_SHIFT | TOKEN_RIGHT_SHIFT
  | TOKEN_POINTER | TOKEN_ADDRESS
  | TOKEN_SEMICOLON | TOKEN_COMMA | TOKEN_PERIOD | TOKEN_COLON | TOKEN_DOUBLE_COLON
  | TOKEN_LEFT_PAREN | TOKEN_RIGHT_PAREN | TOKEN_LEFT_BRACE | TOKEN_RIGHT_BRACE
  | TOKEN_LEFT_BRACKET | TOKEN_RIGHT_BRACKET
  | TOKEN_COMMENT
  | TOKEN_ERROR
  | TOKEN_EOF

record token_t =
  lexeme :: string
  type :: token_type_t

text \<open>
  A pointer to a token or to a lexer is an \<open>option\<close>: \<open>None\<close> is \<^verbatim>\<open>NULL\<close>. The
  allocations (\<^verbatim>\<open>calloc\<close>, \<^verbatim>\<open>realloc\<close>, \<^verbatim>\<open>strdup\<close>) are taken to succeed: the
  branches that the code takes when one of them returns \<^verbatim>\<open>NULL\<close> are left out of the
  model. A lexeme is the string it holds, so \<^verbatim>\<open>strdup\<close> is the identity.

  \<^verbatim>\<open>Frost_initToken\<close>: a \<^verbatim>\<open>NULL\<close> lexeme is refused before anything else is looked at.
\<close>

definition Frost_initToken :: "string option \<Rightarrow> token_type_t \<Rightarrow> token_t option" where
  "Frost_initToken lexeme_in type_in =
     (case lexeme_in of
        None \<Rightarrow> None
      | Some l \<Rightarrow> Some \<lparr>lexeme = l, type = type_in\<rparr>)"

section \<open>The lexer (\<^verbatim>\<open>lexer.h\<close>, \<^verbatim>\<open>lexer.c\<close>)\<close>

text \<open>
  \<^verbatim>\<open>size_t\<close> fields are natural numbers. The one place where the code's unsigned
  arithmetic can wrap is the sum \<^verbatim>\<open>index + offset\<close> of \<^verbatim>\<open>Frost_lexerPeek\<close>, and the
  wrap-around (64-bit \<^verbatim>\<open>size_t\<close>) is written out there.
\<close>

record lexer_t =
  source :: string
  current_char :: char
  source_size :: nat
  index :: nat

text \<open>
  \<^verbatim>\<open>Frost_initLexer\<close>. The read of \<^verbatim>\<open>source[0]\<close> is always inside the allocation: it is
  the first byte, or the terminator of an empty source.
\<close>

definition Frost_initLexer :: "string option \<Rightarrow> lexer_t option" where
  "Frost_initLexer source_in =
     (case source_in of
        None \<Rightarrow> None
      | Some s \<Rightarrow>
          Some \<lparr>source = s, current_char = hd (s @ [NUL]),
                source_size = strlen s, index = 0\<rparr>)"

text \<open>
  \<^verbatim>\<open>Frost_lexerAdvance\<close>, first for a lexer that is not \<^verbatim>\<open>NULL\<close> (the code after the
  security check), then with the check.
\<close>

definition lexerAdvance_body :: "lexer_t \<Rightarrow> fault + lexer_t" where
  "lexerAdvance_body lx =
     (if index lx < source_size lx \<and> current_char lx \<noteq> NUL then
        (case read_at (source lx) (index lx + 1) of
           Inl e \<Rightarrow> Inl e
         | Inr c \<Rightarrow> Inr (lx\<lparr>index := index lx + 1, current_char := c\<rparr>))
      else Inr lx)"

definition Frost_lexerAdvance :: "lexer_t option \<Rightarrow> fault + (int \<times> lexer_t option)" where
  "Frost_lexerAdvance lexer =
     (case lexer of
        None \<Rightarrow> Inr (- ENOMEM, None)
      | Some lx \<Rightarrow>
          (case lexerAdvance_body lx of
             Inl e \<Rightarrow> Inl e
           | Inr lx' \<Rightarrow> Inr (FUNCTION_SUCESS, Some lx')))"

text \<open>
  \<^verbatim>\<open>Frost_lexerAdvanceWith\<close>: advances once and hands the token back; nothing happens
  when either pointer is \<^verbatim>\<open>NULL\<close>.
\<close>

definition Frost_lexerAdvanceWith ::
  "lexer_t option \<Rightarrow> token_t option \<Rightarrow> fault + (token_t option \<times> lexer_t option)" where
  "Frost_lexerAdvanceWith lexer token =
     (case lexer of
        None \<Rightarrow> Inr (None, None)
      | Some lx \<Rightarrow>
          (case token of
             None \<Rightarrow> Inr (None, Some lx)
           | Some t \<Rightarrow>
               (case Frost_lexerAdvance (Some lx) of
                  Inl e \<Rightarrow> Inl e
                | Inr (ret, lexer') \<Rightarrow> Inr (Some t, lexer'))))"

text \<open>
  \<^verbatim>\<open>Frost_lexerPeek\<close>. \<^verbatim>\<open>offset\<close> is a 32-bit \<^verbatim>\<open>int\<close>; in \<^verbatim>\<open>index + offset\<close> it is
  converted to the 64-bit unsigned \<^verbatim>\<open>size_t\<close> and the sum wraps modulo \<open>2 ^ 64\<close>.
\<close>

definition Frost_lexerPeek_index :: "lexer_t \<Rightarrow> 32 word \<Rightarrow> nat" where
  "Frost_lexerPeek_index lx offset =
     MIN_macro (nat ((int (index lx) + sint offset) mod 2 ^ 64)) (source_size lx)"

definition Frost_lexerPeek :: "lexer_t option \<Rightarrow> 32 word \<Rightarrow> fault + char" where
  "Frost_lexerPeek lexer offset =
     (case lexer of
        None \<Rightarrow> Inr (CHR '' '')
      | Some lx \<Rightarrow> read_at (source lx) (Frost_lexerPeek_index lx offset))"

text \<open>
  \<^verbatim>\<open>Frost_lexerSkipWhiteSpace\<close>. A loop of the source is a partial function: \<open>None\<close>
  says that it never ends. On a \<^verbatim>\<open>NULL\<close> lexer the code jumps to the exit with
  \<^verbatim>\<open>ret\<close> still at its initial value \<^verbatim>\<open>FUNCTION_SUCESS\<close>.
\<close>

partial_function (option) lexerSkipWhiteSpace_loop :: "lexer_t \<Rightarrow> (fault + lexer_t) option" where
  "lexerSkipWhiteSpace_loop lx =
     (if current_char lx = CHR 0x0D \<or> current_char lx = CHR 0x0A \<or>
         current_char lx = CHR '' '' \<or> current_char lx = CHR 0x09 then
        (case lexerAdvance_body lx of
           Inl e \<Rightarrow> Some (Inl e)
         | Inr lx' \<Rightarrow> lexerSkipWhiteSpace_loop lx')
      else Some (Inr lx))"

definition Frost_lexerSkipWhiteSpace ::
  "lexer_t option \<Rightarrow> (fault + (int \<times> lexer_t option)) option" where
  "Frost_lexerSkipWhiteSpace lexer =
     (case lexer of
        None \<Rightarrow> Some (Inr (FUNCTION_SUCESS, None))
      | Some lx \<Rightarrow>
          (case lexerSkipWhiteSpace_loop lx of
             None \<Rightarrow> None
           | Some (Inl e) \<Rightarrow> Some (Inl e)
           | Some (Inr lx') \<Rightarrow> Some (Inr (FUNCTION_SUCESS, Some lx'))))"

text \<open>
  \<^verbatim>\<open>Frost_lexerParseID\<close>. \<open>val\<close> is the C string \<^verbatim>\<open>value\<close>: empty after \<^verbatim>\<open>calloc\<close>, one
  character longer after each \<^verbatim>\<open>realloc\<close> and \<^verbatim>\<open>strcat\<close>. The token is always made with
  the kind \<^verbatim>\<open>TOKEN_ID\<close>. The loop ends on every lexer that \<^verbatim>\<open>Frost_initLexer\<close> and the
  operations below can produce (see \<open>lexerParseID_loop_lexer_at\<close>); on a lexer whose
  lookahead is alphanumeric although its cursor is at the end, \<^verbatim>\<open>Frost_lexerAdvance\<close>
  does nothing and the loop of the model does not end.
\<close>

partial_function (option) lexerParseID_loop ::
  "lexer_t \<Rightarrow> string \<Rightarrow> (fault + (string \<times> lexer_t)) option" where
  "lexerParseID_loop lx val =
     (if isalnum (current_char lx) then
        (case lexerAdvance_body lx of
           Inl e \<Rightarrow> Some (Inl e)
         | Inr lx' \<Rightarrow> lexerParseID_loop lx' (val @ [current_char lx]))
      else Some (Inr (val, lx)))"

definition Frost_lexerParseID ::
  "lexer_t option \<Rightarrow> (fault + (token_t option \<times> lexer_t option)) option" where
  "Frost_lexerParseID lexer =
     (case lexer of
        None \<Rightarrow> Some (Inr (None, None))
      | Some lx \<Rightarrow>
          (case lexerParseID_loop lx [] of
             None \<Rightarrow> None
           | Some (Inl e) \<Rightarrow> Some (Inl e)
           | Some (Inr (val, lx')) \<Rightarrow>
               Some (Inr (Frost_initToken (Some val) TOKEN_ID, Some lx'))))"

text \<open>
  \<^verbatim>\<open>Frost_nextToken\<close>. Inside the \<^verbatim>\<open>while\<close> loop, an identifier start leaves the
  function through \<^verbatim>\<open>Frost_lexerAdvanceWith(lexer, Frost_lexerParseID(lexer))\<close>.
  Otherwise the \<^verbatim>\<open>switch\<close> runs: its only case, \<^verbatim>\<open>':'\<close>, has an empty body whose
  \<^verbatim>\<open>break\<close> leaves the \<^verbatim>\<open>switch\<close>, and there is no default, so both ways lead back
  to the loop test with the lexer as it was. After the loop the token is made by
  \<^verbatim>\<open>Frost_initToken(0u, TOKEN_EOF)\<close>, whose first argument is the null pointer.
\<close>

partial_function (option) nextToken_loop ::
  "(char \<Rightarrow> bool) \<Rightarrow> lexer_t \<Rightarrow> (fault + (token_t option \<times> lexer_t option)) option" where
  "nextToken_loop isaalpha lx =
     (if current_char lx \<noteq> NUL then
        (if isaalpha (current_char lx) then
           (case Frost_lexerParseID (Some lx) of
              None \<Rightarrow> None
            | Some (Inl e) \<Rightarrow> Some (Inl e)
            | Some (Inr (token, lexer')) \<Rightarrow> Some (Frost_lexerAdvanceWith lexer' token))
         else if current_char lx = CHR '':'' then nextToken_loop isaalpha lx
         else nextToken_loop isaalpha lx)
      else Some (Inr (Frost_initToken None TOKEN_EOF, Some lx)))"

definition Frost_nextToken ::
  "(char \<Rightarrow> bool) \<Rightarrow> lexer_t option \<Rightarrow> (fault + (token_t option \<times> lexer_t option)) option" where
  "Frost_nextToken isaalpha lexer =
     (case lexer of
        None \<Rightarrow> Some (Inr (None, None))
      | Some lx \<Rightarrow> nextToken_loop isaalpha lx)"

section \<open>Auxiliary notions for the statements\<close>

text \<open>\<open>n\<close> calls of \<^verbatim>\<open>Frost_lexerAdvance\<close> in a row on the same lexer.\<close>

primrec lexerAdvance_times :: "nat \<Rightarrow> lexer_t option \<Rightarrow> fault + lexer_t option" where
  "lexerAdvance_times 0 lexer = Inr lexer"
| "lexerAdvance_times (Suc n) lexer =
     (case Frost_lexerAdvance lexer of
        Inl e \<Rightarrow> Inl e
      | Inr (ret, lexer') \<Rightarrow> lexerAdvance_times n lexer')"

text \<open>
  The lexer over the source \<open>s\<close> whose cursor stands at position \<open>i\<close>, and the
  consistency of a lexer: its size is the length of its source, its cursor is inside
  and its lookahead is the character under the cursor. \<^verbatim>\<open>Frost_initLexer\<close> builds
  \<open>lexer_at s 0\<close>.
\<close>

definition lexer_at :: "string \<Rightarrow> nat \<Rightarrow> lexer_t" where
  "lexer_at s i =
     \<lparr>source = s, current_char = (s @ [NUL]) ! i, source_size = strlen s, index = i\<rparr>"

definition lexer_ok :: "lexer_t \<Rightarrow> bool" where
  "lexer_ok lx \<longleftrightarrow> index lx \<le> strlen (source lx) \<and> lx = lexer_at (source lx) (index lx)"

text \<open>
  Modelled from the spec: the driver, which is not part of the repository ("a driver
  repeatedly invokes the scanner's single entry point until it observes an
  end-of-input token"). It collects the tokens that \<^verbatim>\<open>Frost_nextToken\<close> returns and
  stops at a token of kind \<^verbatim>\<open>TOKEN_EOF\<close>, and also at \<^verbatim>\<open>NULL\<close>, which is what the
  code returns at the end of the input.
\<close>

partial_function (option) tokenize ::
  "(char \<Rightarrow> bool) \<Rightarrow> lexer_t option \<Rightarrow> (fault + token_t list) option" where
  "tokenize isaalpha lexer =
     (case Frost_nextToken isaalpha lexer of
        None \<Rightarrow> None
      | Some (Inl e) \<Rightarrow> Some (Inl e)
      | Some (Inr (None, lexer')) \<Rightarrow> Some (Inr [])
      | Some (Inr (Some t, lexer')) \<Rightarrow>
          (if type t = TOKEN_EOF then Some (Inr [])
           else Option.bind (tokenize isaalpha lexer')
                  (\<lambda>r. Some (case r of Inl e \<Rightarrow> Inl e | Inr ts \<Rightarrow> Inr (t # ts)))))"

text \<open>The kinds of a token sequence, and the total length of its lexemes.\<close>

definition kinds :: "token_t list \<Rightarrow> token_type_t list" where
  "kinds ts = map type ts"

definition lexemes_length :: "token_t list \<Rightarrow> nat" where
  "lexemes_length ts = sum_list (map (\<lambda>t. length (lexeme t)) ts)"

text \<open>
  The four characters that the loop of \<^verbatim>\<open>Frost_lexerSkipWhiteSpace\<close> steps over
  (13, 10, space and tab).
\<close>

definition iswhite :: "char \<Rightarrow> bool" where
  "iswhite c \<longleftrightarrow> c = CHR 0x0D \<or> c = CHR 0x0A \<or> c = CHR '' '' \<or> c = CHR 0x09"

text \<open>
  What an operation has to keep between the lexer \<open>lx\<close> it is given and the lexer
  \<open>lx'\<close> it leaves: the cursor has not moved back, it is not beyond the size, and
  the size is the one captured at initialisation.
\<close>

definition position_kept :: "lexer_t \<Rightarrow> lexer_t \<Rightarrow> bool" where
  "position_kept lx lx' \<longleftrightarrow>
     index lx \<le> index lx' \<and> index lx' \<le> source_size lx' \<and> source_size lx' = source_size lx"

section \<open>Basic facts\<close>

lemma read_at_in_bounds: "i \<le> length s \<Longrightarrow> read_at s i = Inr ((s @ [NUL]) ! i)"
  by (auto simp add: read_at_def nth_append)

lemma lexerAdvance_at_end:
  "\<not> (index lx < source_size lx \<and> current_char lx \<noteq> NUL) \<Longrightarrow>
   Frost_lexerAdvance (Some lx) = Inr (FUNCTION_SUCESS, Some lx)"
  by (auto simp add: Frost_lexerAdvance_def lexerAdvance_body_def)

lemma lexerAdvance_times_at_end:
  "\<not> (index lx < source_size lx \<and> current_char lx \<noteq> NUL) \<Longrightarrow>
   lexerAdvance_times n (Some lx) = Inr (Some lx)"
  by (induction n) (simp_all add: lexerAdvance_at_end)

lemma lexerAdvance_step:
  "index lx < source_size lx \<Longrightarrow> current_char lx \<noteq> NUL \<Longrightarrow>
   source_size lx \<le> length (source lx) \<Longrightarrow>
   Frost_lexerAdvance (Some lx) =
     Inr (FUNCTION_SUCESS,
          Some (lx\<lparr>index := index lx + 1,
                  current_char := (source lx @ [NUL]) ! (index lx + 1)\<rparr>))"
  by (simp add: Frost_lexerAdvance_def lexerAdvance_body_def read_at_in_bounds)

text \<open>
  The loop of \<^verbatim>\<open>Frost_nextToken\<close> can only be left at the terminator or at an
  identifier start; anywhere else it runs for ever.
\<close>

lemma nextToken_loop_returns:
  assumes "nextToken_loop ia lx = Some y"
  shows "current_char lx = NUL \<or> ia (current_char lx)"
  by (rule nextToken_loop.raw_induct [OF _ assms]) (auto split: if_splits)

lemma nextToken_loop_hangs:
  "current_char lx \<noteq> NUL \<Longrightarrow> \<not> ia (current_char lx) \<Longrightarrow> nextToken_loop ia lx = None"
  using nextToken_loop_returns by (cases "nextToken_loop ia lx") auto

lemma nextToken_at_end:
  "current_char lx = NUL \<Longrightarrow> Frost_nextToken ia (Some lx) = Some (Inr (None, Some lx))"
  by (simp add: Frost_nextToken_def nextToken_loop.simps Frost_initToken_def)

section \<open>C strings and consistent lexers\<close>

lemma strlen_le_length: "strlen s \<le> length s"
  by (simp add: strlen_def length_takeWhile_le)

lemma nth_before_strlen: "i < strlen s \<Longrightarrow> s ! i \<noteq> NUL"
proof -
  assume a: "i < strlen s"
  then have "takeWhile (\<lambda>c. c \<noteq> NUL) s ! i = s ! i"
    unfolding strlen_def by (rule takeWhile_nth)
  moreover have "takeWhile (\<lambda>c. c \<noteq> NUL) s ! i \<in> set (takeWhile (\<lambda>c. c \<noteq> NUL) s)"
    using a unfolding strlen_def by (rule nth_mem)
  ultimately show ?thesis using set_takeWhileD by fastforce
qed

lemma nth_at_strlen: "(s @ [NUL]) ! strlen s = NUL"
proof (cases "strlen s < length s")
  case True
  then have "\<not> (s ! strlen s \<noteq> NUL)"
    unfolding strlen_def by (rule nth_length_takeWhile)
  with True show ?thesis by (simp add: nth_append)
next
  case False
  with strlen_le_length [of s] have "strlen s = length s" by simp
  then show ?thesis by (simp add: nth_append)
qed

lemma current_char_lexer_at:
  "i \<le> strlen s \<Longrightarrow> (current_char (lexer_at s i) = NUL) = (i = strlen s)"
proof (cases "i = strlen s")
  case True
  then show ?thesis using nth_at_strlen [of s] by (simp add: lexer_at_def)
next
  case False
  assume "i \<le> strlen s"
  with False have lt: "i < strlen s" by simp
  then have "i < length s" using strlen_le_length [of s] by simp
  then show ?thesis using nth_before_strlen [OF lt] False by (simp add: lexer_at_def nth_append)
qed

lemma lexerAdvance_body_lexer_at:
  "i \<le> strlen s \<Longrightarrow>
   lexerAdvance_body (lexer_at s i) = Inr (lexer_at s (if i < strlen s then Suc i else i))"
proof (cases "i < strlen s")
  case True
  assume "i \<le> strlen s"
  have "Suc i \<le> length s" using True strlen_le_length [of s] by simp
  then have r: "read_at s (Suc i) = Inr ((s @ [NUL]) ! Suc i)" by (rule read_at_in_bounds)
  have "current_char (lexer_at s i) \<noteq> NUL"
    using current_char_lexer_at [of i s] True by simp
  then show ?thesis using True r
    by (simp add: lexerAdvance_body_def) (simp add: lexer_at_def)
next
  case False
  then show ?thesis by (simp add: lexerAdvance_body_def) (simp add: lexer_at_def)
qed

lemma not_isalnum_NUL: "\<not> isalnum NUL"
  by (simp add: isalnum_def isalpha_def isdigit_def NUL_def)

lemma lexerParseID_loop_lexer_at:
  "i \<le> strlen s \<Longrightarrow> n = strlen s - i \<Longrightarrow>
   lexerParseID_loop (lexer_at s i) val =
     Some (Inr (val @ takeWhile isalnum (drop i s),
                lexer_at s (i + length (takeWhile isalnum (drop i s)))))"
proof (induction n arbitrary: i val)
  case 0
  then have i: "i = strlen s" by simp
  then have c: "current_char (lexer_at s i) = NUL"
    using current_char_lexer_at [of i s] by simp
  have "takeWhile isalnum (drop i s) = []"
  proof (cases "i < length s")
    case True
    then have "drop i s = s ! i # drop (Suc i) s" by (simp add: Cons_nth_drop_Suc)
    moreover have "s ! i = NUL" using c True by (simp add: lexer_at_def nth_append)
    ultimately show ?thesis by (simp add: not_isalnum_NUL)
  next
    case False
    then show ?thesis by simp
  qed
  with c show ?case
    by (subst lexerParseID_loop.simps) (simp add: not_isalnum_NUL)
next
  case (Suc n)
  then have lt: "i < strlen s" by simp
  then have len: "i < length s" using strlen_le_length [of s] by simp
  then have d: "drop i s = s ! i # drop (Suc i) s" by (simp add: Cons_nth_drop_Suc)
  have c: "current_char (lexer_at s i) = s ! i" using len by (simp add: lexer_at_def nth_append)
  show ?case
  proof (cases "isalnum (s ! i)")
    case True
    have "lexerParseID_loop (lexer_at s i) val =
            lexerParseID_loop (lexer_at s (Suc i)) (val @ [s ! i])"
      using True c lt by (subst lexerParseID_loop.simps) (simp add: lexerAdvance_body_lexer_at)
    also have "\<dots> = Some (Inr ((val @ [s ! i]) @ takeWhile isalnum (drop (Suc i) s),
                lexer_at s (Suc i + length (takeWhile isalnum (drop (Suc i) s)))))"
      using Suc.prems lt by (intro Suc.IH) simp_all
    finally show ?thesis using True d by simp
  next
    case False
    then show ?thesis using c d by (subst lexerParseID_loop.simps) simp
  qed
qed

lemma takeWhile_isalnum_within:
  assumes "i \<le> strlen s"
  shows "i + length (takeWhile isalnum (drop i s)) \<le> strlen s"
proof (rule ccontr)
  let ?w = "takeWhile isalnum (drop i s)"
  assume "\<not> i + length ?w \<le> strlen s"
  then have j: "strlen s - i < length ?w" using assms by simp
  have "length ?w \<le> length (drop i s)" by (rule length_takeWhile_le)
  then have lt: "strlen s < length s" using j assms by simp
  have "?w ! (strlen s - i) = drop i s ! (strlen s - i)" using j by (rule takeWhile_nth)
  also have "\<dots> = s ! strlen s" using assms lt by simp
  also have "\<dots> = NUL" using nth_at_strlen [of s] lt by (simp add: nth_append)
  finally have "?w ! (strlen s - i) = NUL" .
  moreover have "?w ! (strlen s - i) \<in> set ?w" using j by (rule nth_mem)
  ultimately have "isalnum NUL" using set_takeWhileD [of NUL isalnum "drop i s"] by simp
  then show False by (simp add: not_isalnum_NUL)
qed

lemma Frost_lexerParseID_lexer_at:
  "i \<le> strlen s \<Longrightarrow>
   Frost_lexerParseID (Some (lexer_at s i)) =
     Some (Inr (Some \<lparr>lexeme = takeWhile isalnum (drop i s), type = TOKEN_ID\<rparr>,
                Some (lexer_at s (i + length (takeWhile isalnum (drop i s))))))"
  by (simp add: Frost_lexerParseID_def lexerParseID_loop_lexer_at [where val = "[]"]
      Frost_initToken_def)

lemma Frost_nextToken_identifier:
  assumes "i < strlen s" and "ia (s ! i)"
  shows "Frost_nextToken ia (Some (lexer_at s i)) =
     Some (Inr (Some \<lparr>lexeme = takeWhile isalnum (drop i s), type = TOKEN_ID\<rparr>,
                Some (lexer_at s (min (Suc (i + length (takeWhile isalnum (drop i s))))
                                      (strlen s)))))"
proof -
  let ?w = "takeWhile isalnum (drop i s)"
  have le: "i \<le> strlen s" using assms by simp
  have len: "i < length s" using assms strlen_le_length [of s] by simp
  have c: "current_char (lexer_at s i) = s ! i" using len by (simp add: lexer_at_def nth_append)
  have n: "current_char (lexer_at s i) \<noteq> NUL" using current_char_lexer_at [OF le] assms by simp
  have j: "i + length ?w \<le> strlen s" using le by (rule takeWhile_isalnum_within)
  have adv: "lexerAdvance_body (lexer_at s (i + length ?w)) =
      Inr (lexer_at s (min (Suc (i + length ?w)) (strlen s)))"
  proof -
    have "(if i + length ?w < strlen s then Suc (i + length ?w) else i + length ?w) =
        min (Suc (i + length ?w)) (strlen s)"
      using j by (auto simp add: min_def)
    then show ?thesis using lexerAdvance_body_lexer_at [OF j] by simp
  qed
  have "nextToken_loop ia (lexer_at s i) =
      Some (Frost_lexerAdvanceWith (Some (lexer_at s (i + length ?w)))
              (Some \<lparr>lexeme = ?w, type = TOKEN_ID\<rparr>))"
    using c n assms
    by (subst nextToken_loop.simps) (simp add: Frost_lexerParseID_lexer_at [OF le])
  then show ?thesis
    by (simp add: Frost_nextToken_def Frost_lexerAdvanceWith_def Frost_lexerAdvance_def adv)
qed

lemma lexer_ok_lexer_at: "i \<le> strlen s \<Longrightarrow> lexer_ok (lexer_at s i)"
  by (simp add: lexer_ok_def lexer_at_def)

lemma Frost_initLexer_lexer_at: "Frost_initLexer (Some s) = Some (lexer_at s 0)"
  by (cases s) (simp_all add: Frost_initLexer_def lexer_at_def)

lemma lexer_ok_eq: "lexer_ok lx \<Longrightarrow> lx = lexer_at (source lx) (index lx)"
  by (simp add: lexer_ok_def)

lemma source_lexer_at [simp]: "source (lexer_at s i) = s"
  by (simp add: lexer_at_def)

lemma index_lexer_at [simp]: "index (lexer_at s i) = i"
  by (simp add: lexer_at_def)

lemma source_size_lexer_at [simp]: "source_size (lexer_at s i) = strlen s"
  by (simp add: lexer_at_def)

lemma Frost_nextToken_lexer_at_end:
  "Frost_nextToken ia (Some (lexer_at s (strlen s))) = Some (Inr (None, Some (lexer_at s (strlen s))))"
  using current_char_lexer_at [of "strlen s" s] by (simp add: nextToken_at_end)

lemma Frost_nextToken_lexer_at_hangs:
  assumes "i < strlen s" and "\<not> ia (s ! i)"
  shows "Frost_nextToken ia (Some (lexer_at s i)) = None"
proof -
  have len: "i < length s" using assms strlen_le_length [of s] by simp
  have c: "current_char (lexer_at s i) = s ! i" using len by (simp add: lexer_at_def nth_append)
  have "current_char (lexer_at s i) \<noteq> NUL" using current_char_lexer_at [of i s] assms by simp
  then show ?thesis using c assms by (simp add: Frost_nextToken_def nextToken_loop_hangs)
qed

lemma tokenize_lexer_at_end:
  "tokenize ia (Some (lexer_at s (strlen s))) = Some (Inr [])"
  by (subst tokenize.simps) (simp add: Frost_nextToken_lexer_at_end)

lemma tokenize_lexer_at_hangs:
  "i < strlen s \<Longrightarrow> \<not> ia (s ! i) \<Longrightarrow> tokenize ia (Some (lexer_at s i)) = None"
  by (subst tokenize.simps) (simp add: Frost_nextToken_lexer_at_hangs)

lemma tokenize_lexer_at_identifier:
  "i < strlen s \<Longrightarrow> ia (s ! i) \<Longrightarrow>
   tokenize ia (Some (lexer_at s i)) =
     Option.bind
       (tokenize ia (Some (lexer_at s (min (Suc (i + length (takeWhile isalnum (drop i s))))
                                           (strlen s)))))
       (\<lambda>r. Some (case r of
                    Inl e \<Rightarrow> Inl e
                  | Inr ts \<Rightarrow> Inr (\<lparr>lexeme = takeWhile isalnum (drop i s), type = TOKEN_ID\<rparr> # ts)))"
  by (subst tokenize.simps) (simp add: Frost_nextToken_identifier)

lemma tokenize_bounds_lexer_at:
  "i \<le> strlen s \<Longrightarrow> tokenize ia (Some (lexer_at s i)) = Some (Inr ts) \<Longrightarrow>
   lexemes_length ts + (length ts - 1) \<le> strlen s - i \<and>
   strlen s - i \<le> lexemes_length ts + length ts"
proof (induction "strlen s - i" arbitrary: i ts rule: less_induct)
  case less
  show ?case
  proof (cases "i = strlen s")
    case True
    then have "ts = []" using less.prems tokenize_lexer_at_end [of ia s] by simp
    then show ?thesis using True by (simp add: lexemes_length_def)
  next
    case False
    then have lt: "i < strlen s" using less.prems by simp
    have ia: "ia (s ! i)"
      using tokenize_lexer_at_hangs [of i s ia, OF lt] less.prems by auto
    let ?w = "takeWhile isalnum (drop i s)"
    let ?j = "min (Suc (i + length ?w)) (strlen s)"
    let ?t = "\<lparr>lexeme = ?w, type = TOKEN_ID\<rparr>"
    have "Option.bind (tokenize ia (Some (lexer_at s ?j)))
            (\<lambda>r. Some (case r of Inl e \<Rightarrow> Inl e | Inr ts \<Rightarrow> Inr (?t # ts))) = Some (Inr ts)"
      using less.prems(2) tokenize_lexer_at_identifier [of i s ia, OF lt ia] by simp
    then obtain r where r: "tokenize ia (Some (lexer_at s ?j)) = Some r"
      and c: "(case r of Inl e \<Rightarrow> Inl e | Inr ts \<Rightarrow> Inr (?t # ts)) = Inr ts"
      by (auto simp add: bind_eq_Some_conv)
    from c obtain ts' where "r = Inr ts'" and ts: "ts = ?t # ts'"
      by (cases r) auto
    with r have ts': "tokenize ia (Some (lexer_at s ?j)) = Some (Inr ts')" by simp
    have w: "i + length ?w \<le> strlen s" using less.prems(1) by (rule takeWhile_isalnum_within)
    have IH: "lexemes_length ts' + (length ts' - 1) \<le> strlen s - ?j \<and>
              strlen s - ?j \<le> lexemes_length ts' + length ts'"
    proof (rule less.hyps [OF _ _ ts'])
      show "strlen s - ?j < strlen s - i" using lt by (auto simp add: min_def)
      show "?j \<le> strlen s" by simp
    qed
    show ?thesis
    proof (cases "i + length ?w = strlen s")
      case True
      then have "?j = strlen s" by simp
      then have "ts' = []" using ts' tokenize_lexer_at_end [of ia s] by simp
      moreover have "strlen s - i = length ?w" using True by arith
      ultimately show ?thesis using ts by (simp add: lexemes_length_def)
    next
      case False
      then have j: "?j = Suc (i + length ?w)" using w by simp
      have IH': "lexemes_length ts' + (length ts' - 1) \<le> strlen s - Suc (i + length ?w) \<and>
                 strlen s - Suc (i + length ?w) \<le> lexemes_length ts' + length ts'"
        using IH unfolding j .
      have l: "lexemes_length ts = length ?w + lexemes_length ts'"
        using ts by (simp add: lexemes_length_def)
      have n: "length ts = Suc (length ts')" using ts by simp
      show ?thesis using IH' l n w False by arith
    qed
  qed
qed

section \<open>The cursor never moves back\<close>

lemma peek_index_le: "Frost_lexerPeek_index lx offset \<le> source_size lx"
  by (simp add: Frost_lexerPeek_index_def MIN_macro_def)

lemma MIN_macro_min: "MIN_macro a b = min a b"
  by (simp add: MIN_macro_def min_def)

lemma lexerAdvance_body_kept:
  "lexerAdvance_body lx = Inr lx' \<Longrightarrow> index lx \<le> source_size lx \<Longrightarrow> position_kept lx lx'"
  by (auto simp add: lexerAdvance_body_def position_kept_def split: if_splits sum.splits)

lemma position_kept_trans:
  "position_kept a b \<Longrightarrow> position_kept b c \<Longrightarrow> position_kept a c"
  by (simp add: position_kept_def)

lemma position_kept_bound: "position_kept a b \<Longrightarrow> index b \<le> source_size b"
  by (simp add: position_kept_def)

lemma position_kept_refl: "index a \<le> source_size a \<Longrightarrow> position_kept a a"
  by (simp add: position_kept_def)

lemma lexerSkipWhiteSpace_loop_kept:
  assumes "lexerSkipWhiteSpace_loop lx = Some y"
  shows "\<forall>lx'. y = Inr lx' \<longrightarrow> index lx \<le> source_size lx \<longrightarrow> position_kept lx lx'"
proof (rule lexerSkipWhiteSpace_loop.raw_induct [OF _ assms])
  fix f lx y
  assume IH: "\<And>lx y. f lx = Some y \<Longrightarrow>
        \<forall>lx'. y = Inr lx' \<longrightarrow> index lx \<le> source_size lx \<longrightarrow> position_kept lx lx'"
    and eq: "(if current_char lx = CHR 0x0D \<or> current_char lx = CHR 0x0A \<or>
         current_char lx = CHR '' '' \<or> current_char lx = CHR 0x09 then
        (case lexerAdvance_body lx of
           Inl e \<Rightarrow> Some (Inl e)
         | Inr lx' \<Rightarrow> f lx')
      else Some (Inr lx)) = Some y"
  show "\<forall>lx'. y = Inr lx' \<longrightarrow> index lx \<le> source_size lx \<longrightarrow> position_kept lx lx'"
  proof (intro allI impI)
    fix lx'
    assume y: "y = Inr lx'" and b: "index lx \<le> source_size lx"
    show "position_kept lx lx'"
    proof (cases "current_char lx = CHR 0x0D \<or> current_char lx = CHR 0x0A \<or>
         current_char lx = CHR '' '' \<or> current_char lx = CHR 0x09")
      case False
      then show ?thesis using eq y b by (simp add: position_kept_refl)
    next
      case True
      then obtain lx1 where a: "lexerAdvance_body lx = Inr lx1" and f: "f lx1 = Some y"
        using eq y by (cases "lexerAdvance_body lx") auto
      from lexerAdvance_body_kept [OF a b] have k: "position_kept lx lx1" .
      from IH [OF f] y position_kept_bound [OF k] have "position_kept lx1 lx'" by simp
      with k show ?thesis by (rule position_kept_trans)
    qed
  qed
qed

lemma lexerParseID_loop_kept:
  assumes "lexerParseID_loop lx val = Some y"
  shows "\<forall>v lx'. y = Inr (v, lx') \<longrightarrow> index lx \<le> source_size lx \<longrightarrow> position_kept lx lx'"
proof (rule lexerParseID_loop.raw_induct [OF _ assms])
  fix f lx val y
  assume IH: "\<And>lx val y. f lx val = Some y \<Longrightarrow>
        \<forall>v lx'. y = Inr (v, lx') \<longrightarrow> index lx \<le> source_size lx \<longrightarrow> position_kept lx lx'"
    and eq: "(if isalnum (current_char lx) then
        (case lexerAdvance_body lx of
           Inl e \<Rightarrow> Some (Inl e)
         | Inr lx' \<Rightarrow> f lx' (val @ [current_char lx]))
      else Some (Inr (val, lx))) = Some y"
  show "\<forall>v lx'. y = Inr (v, lx') \<longrightarrow> index lx \<le> source_size lx \<longrightarrow> position_kept lx lx'"
  proof (intro allI impI)
    fix v lx'
    assume y: "y = Inr (v, lx')" and b: "index lx \<le> source_size lx"
    show "position_kept lx lx'"
    proof (cases "isalnum (current_char lx)")
      case False
      then show ?thesis using eq y b by (simp add: position_kept_refl)
    next
      case True
      then obtain lx1 where a: "lexerAdvance_body lx = Inr lx1"
        and f: "f lx1 (val @ [current_char lx]) = Some y"
        using eq y by (cases "lexerAdvance_body lx") auto
      from lexerAdvance_body_kept [OF a b] have k: "position_kept lx lx1" .
      from IH [OF f] y position_kept_bound [OF k] have "position_kept lx1 lx'" by simp
      with k show ?thesis by (rule position_kept_trans)
    qed
  qed
qed

lemma not_iswhite_NUL: "\<not> iswhite NUL"
  by (simp add: iswhite_def NUL_def)

lemma lexerSkipWhiteSpace_loop_lexer_at:
  "i \<le> strlen s \<Longrightarrow> n = strlen s - i \<Longrightarrow>
   lexerSkipWhiteSpace_loop (lexer_at s i) =
     Some (Inr (lexer_at s (i + length (takeWhile iswhite (drop i s)))))"
proof (induction n arbitrary: i)
  case 0
  then have i: "i = strlen s" by simp
  then have c: "current_char (lexer_at s i) = NUL"
    using current_char_lexer_at [of i s] by simp
  have "takeWhile iswhite (drop i s) = []"
  proof (cases "i < length s")
    case True
    then have "drop i s = s ! i # drop (Suc i) s" by (simp add: Cons_nth_drop_Suc)
    moreover have "s ! i = NUL" using c True by (simp add: lexer_at_def nth_append)
    ultimately show ?thesis by (simp add: not_iswhite_NUL)
  next
    case False
    then show ?thesis by simp
  qed
  with c not_iswhite_NUL show ?case
    by (subst lexerSkipWhiteSpace_loop.simps) (simp add: iswhite_def)
next
  case (Suc n)
  then have lt: "i < strlen s" by simp
  then have len: "i < length s" using strlen_le_length [of s] by simp
  then have d: "drop i s = s ! i # drop (Suc i) s" by (simp add: Cons_nth_drop_Suc)
  have c: "current_char (lexer_at s i) = s ! i" using len by (simp add: lexer_at_def nth_append)
  show ?case
  proof (cases "iswhite (s ! i)")
    case True
    have "lexerSkipWhiteSpace_loop (lexer_at s i) = lexerSkipWhiteSpace_loop (lexer_at s (Suc i))"
      using True c lt
      by (subst lexerSkipWhiteSpace_loop.simps) (simp add: lexerAdvance_body_lexer_at iswhite_def)
    also have "\<dots> = Some (Inr (lexer_at s (Suc i + length (takeWhile iswhite (drop (Suc i) s)))))"
      using Suc.prems lt by (intro Suc.IH) simp_all
    finally show ?thesis using True d by simp
  next
    case False
    then show ?thesis using c d
      by (subst lexerSkipWhiteSpace_loop.simps) (simp add: iswhite_def)
  qed
qed

lemma Frost_lexerSkipWhiteSpace_lexer_at:
  "i \<le> strlen s \<Longrightarrow>
   Frost_lexerSkipWhiteSpace (Some (lexer_at s i)) =
     Some (Inr (FUNCTION_SUCESS, Some (lexer_at s (i + length (takeWhile iswhite (drop i s))))))"
  by (simp add: Frost_lexerSkipWhiteSpace_def lexerSkipWhiteSpace_loop_lexer_at)

lemma Frost_lexerAdvance_lexer_at:
  "i \<le> strlen s \<Longrightarrow>
   Frost_lexerAdvance (Some (lexer_at s i)) =
     Inr (FUNCTION_SUCESS, Some (lexer_at s (if i < strlen s then Suc i else i)))"
  by (simp add: Frost_lexerAdvance_def lexerAdvance_body_lexer_at)

lemma Frost_lexerAdvance_kept:
  assumes "Frost_lexerAdvance (Some lx) = Inr (r, lexer')" and "index lx \<le> source_size lx"
  shows "\<exists>lx'. lexer' = Some lx' \<and> position_kept lx lx'"
proof (cases "lexerAdvance_body lx")
  case (Inl e)
  then show ?thesis using assms(1) by (simp add: Frost_lexerAdvance_def)
next
  case (Inr lx1)
  then have "lexer' = Some lx1" using assms(1) by (simp add: Frost_lexerAdvance_def)
  then show ?thesis using lexerAdvance_body_kept [OF Inr assms(2)] by simp
qed

lemma Frost_lexerSkipWhiteSpace_kept:
  assumes "Frost_lexerSkipWhiteSpace (Some lx) = Some (Inr (r, lexer'))"
    and "index lx \<le> source_size lx"
  shows "\<exists>lx'. lexer' = Some lx' \<and> position_kept lx lx'"
proof -
  from assms(1) obtain lx1 where l: "lexerSkipWhiteSpace_loop lx = Some (Inr lx1)"
    and "lexer' = Some lx1"
    by (auto simp add: Frost_lexerSkipWhiteSpace_def split: option.splits sum.splits)
  then show ?thesis using lexerSkipWhiteSpace_loop_kept [OF l] assms(2) by simp
qed

lemma Frost_lexerParseID_kept:
  assumes "Frost_lexerParseID (Some lx) = Some (Inr (t, lexer'))"
    and "index lx \<le> source_size lx"
  shows "\<exists>lx'. lexer' = Some lx' \<and> position_kept lx lx' \<and> t \<noteq> None"
proof -
  from assms(1) obtain v lx1 where l: "lexerParseID_loop lx [] = Some (Inr (v, lx1))"
    and "lexer' = Some lx1" and "t = Frost_initToken (Some v) TOKEN_ID"
    by (auto simp add: Frost_lexerParseID_def split: option.splits sum.splits)
  then show ?thesis using lexerParseID_loop_kept [OF l] assms(2)
    by (simp add: Frost_initToken_def)
qed

lemma Frost_nextToken_kept:
  assumes "Frost_nextToken ia (Some lx) = Some (Inr (t, lexer'))"
    and "index lx \<le> source_size lx"
  shows "\<exists>lx'. lexer' = Some lx' \<and> position_kept lx lx'"
proof (cases "current_char lx = NUL")
  case True
  then have "lexer' = Some lx" using assms(1) nextToken_at_end [of lx ia] by simp
  then show ?thesis using assms(2) by (simp add: position_kept_refl)
next
  case False
  have l: "nextToken_loop ia lx = Some (Inr (t, lexer'))"
    using assms(1) by (simp add: Frost_nextToken_def)
  then have a: "ia (current_char lx)" using nextToken_loop_returns [OF l] False by simp
  from l False a obtain tok lexer1 where
      p: "Frost_lexerParseID (Some lx) = Some (Inr (tok, lexer1))"
      and w: "Frost_lexerAdvanceWith lexer1 tok = Inr (t, lexer')"
    by (subst (asm) nextToken_loop.simps) (auto split: option.splits sum.splits)
  from Frost_lexerParseID_kept [OF p assms(2)] obtain lx1 tk where
      l1: "lexer1 = Some lx1" and k1: "position_kept lx lx1" and tk: "tok = Some tk" by auto
  from w l1 tk obtain r where "Frost_lexerAdvance (Some lx1) = Inr (r, lexer')"
    by (auto simp add: Frost_lexerAdvanceWith_def split: sum.splits)
  from Frost_lexerAdvance_kept [OF this position_kept_bound [OF k1]] obtain lx2 where
      "lexer' = Some lx2" and "position_kept lx1 lx2" by auto
  then show ?thesis using position_kept_trans [OF k1] by simp
qed

section \<open>Evaluation on concrete sources\<close>

lemmas char_class_defs = isaalpha_spec_def isalpha_def isalnum_def isdigit_def NUL_def

lemma tokenize_lexer_at_end_eq:
  "i = strlen s \<Longrightarrow> tokenize ia (Some (lexer_at s i)) = Some (Inr [])"
  by (simp add: tokenize_lexer_at_end)

lemma tokenize_a_plus_b:
  "tokenize isaalpha_spec (Frost_initLexer (Some ''a+b'')) =
     Some (Inr [\<lparr>lexeme = ''a'', type = TOKEN_ID\<rparr>, \<lparr>lexeme = ''b'', type = TOKEN_ID\<rparr>])"
  by (simp add: Frost_initLexer_lexer_at tokenize_lexer_at_identifier tokenize_lexer_at_end_eq
      strlen_def char_class_defs)

lemma tokenize_if:
  "tokenize isaalpha_spec (Frost_initLexer (Some ''if'')) =
     Some (Inr [\<lparr>lexeme = ''if'', type = TOKEN_ID\<rparr>])"
  by (simp add: Frost_initLexer_lexer_at tokenize_lexer_at_identifier tokenize_lexer_at_end_eq
      strlen_def char_class_defs)

section \<open>What a call that returns a token has consumed\<close>

lemma Frost_nextToken_token_lexer_at:
  assumes "i \<le> strlen s"
    and "Frost_nextToken ia (Some (lexer_at s i)) = Some (Inr (Some t, lexer'))"
  shows "t = \<lparr>lexeme = takeWhile isalnum (drop i s), type = TOKEN_ID\<rparr> \<and>
         lexer' = Some (lexer_at s (min (Suc (i + length (takeWhile isalnum (drop i s))))
                                        (strlen s)))"
proof (cases "i = strlen s")
  case True
  then show ?thesis using assms(2) Frost_nextToken_lexer_at_end [of ia s] by simp
next
  case False
  then have lt: "i < strlen s" using assms(1) by simp
  have "ia (s ! i)" using Frost_nextToken_lexer_at_hangs [of i s ia, OF lt] assms(2) by auto
  from Frost_nextToken_identifier [of i s ia, OF lt this] assms(2) show ?thesis by simp
qed

text \<open>
  On a consistent lexer, a call that returns a token leaves the cursor one character
  behind the lexeme (or at the end of the source): the character that follows an
  identifier belongs to no lexeme. Over a run of the driver that comes to its end, the
  characters of the source are those of the lexemes plus one more per token, the last
  token excepted when its identifier ends the source.
\<close>

lemma tokenize_accounting:
  assumes ok: "lexer_ok lx"
  shows "(\<forall>t lexer'. Frost_nextToken ia (Some lx) = Some (Inr (Some t, lexer')) \<longrightarrow>
      (\<exists>lx'. lexer' = Some lx' \<and> lexer_ok lx' \<and> source lx' = source lx \<and>
             source_size lx' = source_size lx \<and>
             index lx' = min (index lx + length (lexeme t) + 1) (source_size lx))) \<and>
   (\<forall>ts. tokenize ia (Some lx) = Some (Inr ts) \<longrightarrow>
      lexemes_length ts + (length ts - 1) \<le> source_size lx - index lx \<and>
      source_size lx - index lx \<le> lexemes_length ts + length ts)"
proof -
  have eq: "lx = lexer_at (source lx) (index lx)" using ok by (rule lexer_ok_eq)
  have le: "index lx \<le> strlen (source lx)" using ok by (simp add: lexer_ok_def)
  have sz: "source_size lx = strlen (source lx)" using eq by (metis source_size_lexer_at)
  have a: "\<exists>lx'. lexer' = Some lx' \<and> lexer_ok lx' \<and> source lx' = source lx \<and>
             source_size lx' = source_size lx \<and>
             index lx' = min (index lx + length (lexeme t) + 1) (source_size lx)"
    if "Frost_nextToken ia (Some lx) = Some (Inr (Some t, lexer'))" for t lexer'
  proof -
    from that eq have "Frost_nextToken ia (Some (lexer_at (source lx) (index lx))) =
        Some (Inr (Some t, lexer'))" by simp
    from Frost_nextToken_token_lexer_at [OF le this] sz show ?thesis
      by (simp add: lexer_ok_lexer_at)
  qed
  have b: "lexemes_length ts + (length ts - 1) \<le> source_size lx - index lx \<and>
      source_size lx - index lx \<le> lexemes_length ts + length ts"
    if "tokenize ia (Some lx) = Some (Inr ts)" for ts
  proof -
    from that eq have "tokenize ia (Some (lexer_at (source lx) (index lx))) = Some (Inr ts)"
      by simp
    from tokenize_bounds_lexer_at [OF le this] sz show ?thesis by simp
  qed
  from a b show ?thesis by blast
qed

text \<open>
  What \<^verbatim>\<open>Frost_lexerPeek\<close> reads on a lexer whose size does not exceed its buffer: the
  index is the wrapped sum cut to the size, so the read stays inside the buffer; when
  the sum is not negative this is the sum clamped to the size.
\<close>

lemma Frost_lexerPeek_exact:
  assumes "source_size lx \<le> length (source lx)"
  shows "Frost_lexerPeek_index lx offset \<le> length (source lx) \<and>
      Frost_lexerPeek (Some lx) offset =
        Inr ((source lx @ [NUL]) !
               min (nat ((int (index lx) + sint offset) mod 2 ^ 64)) (source_size lx))"
proof -
  have "Frost_lexerPeek_index lx offset \<le> length (source lx)"
    using peek_index_le [of lx offset] assms by simp
  then show ?thesis
    by (simp add: Frost_lexerPeek_def read_at_in_bounds)
       (simp add: Frost_lexerPeek_index_def MIN_macro_min)
qed

lemma Frost_lexerPeek_clamped:
  assumes h: "source_size lx \<le> length (source lx)"
    and p: "0 \<le> int (index lx) + sint offset"
    and q: "int (index lx) + sint offset < 2 ^ 64"
  shows "Frost_lexerPeek (Some lx) offset =
        Inr ((source lx @ [NUL]) !
               nat (max 0 (min (int (source_size lx)) (int (index lx) + sint offset))))"
proof -
  have "(int (index lx) + sint offset) mod 2 ^ 64 = int (index lx) + sint offset"
    using p q by simp
  moreover have "min (nat (int (index lx) + sint offset)) (source_size lx) =
      nat (max 0 (min (int (source_size lx)) (int (index lx) + sint offset)))"
    using p by arith
  ultimately show ?thesis using Frost_lexerPeek_exact [OF h, of offset] by simp
qed

section \<open>The claims\<close>

text \<open>
  C1 (progress of \<^verbatim>\<open>Frost_nextToken\<close>). The claim asks every call either to advance the
  cursor or to return the end-of-input token. On the source \<open>+\<close> the call does neither:
  the character is not an identifier start and not the terminator, the \<^verbatim>\<open>switch\<close>
  does nothing, and the \<^verbatim>\<open>while\<close> loop runs for ever on an unchanged lexer. So the
  tokenization of this one-character source does not terminate.
\<close>

theorem nextToken_hangs_on_plus:
  "Frost_nextToken isaalpha_spec (Frost_initLexer (Some ''+'')) = None \<and>
   tokenize isaalpha_spec (Frost_initLexer (Some ''+'')) = None"
  by (simp add: Frost_initLexer_lexer_at tokenize_lexer_at_hangs Frost_nextToken_lexer_at_hangs
      strlen_def char_class_defs)

text \<open>
  C2 (end of input). On the empty source the cursor is at the terminator from the start.
  The call leaves the lexer unchanged, but what it returns is \<^verbatim>\<open>NULL\<close>, not a token of
  kind \<^verbatim>\<open>TOKEN_EOF\<close>: the lexeme passed to \<^verbatim>\<open>Frost_initToken\<close> is the null pointer.
\<close>

theorem nextToken_empty_source_returns_null:
  "Frost_nextToken isaalpha_spec (Frost_initLexer (Some [])) =
     Some (Inr (None, Frost_initLexer (Some [])))"
  by (simp add: Frost_initLexer_def nextToken_at_end)

text \<open>
  C3 (identifiers and keywords), as the code has it. At a letter or digit that the
  classifier \<^verbatim>\<open>isaalpha\<close> accepts as an identifier start, \<^verbatim>\<open>Frost_nextToken\<close> on a
  consistent lexer returns a token whose lexeme is the longest run of alphanumeric
  characters at the cursor (an underscore ends the run) and whose kind is \<^verbatim>\<open>TOKEN_ID\<close>,
  and it leaves a consistent lexer over the same source whose cursor is behind the whole
  run. No keyword table is consulted: whenever their first letter is accepted, \<open>if\<close>,
  \<open>while\<close>, \<open>return\<close> and \<open>ifx\<close> all come back as \<^verbatim>\<open>TOKEN_ID\<close> with their text, the
  cursor at the end of the source. Nothing is said of a start that is not alphanumeric,
  such as the underscore of \<open>_if\<close>.
\<close>

theorem nextToken_identifier_kind:
  "(lexer_ok lx \<and> current_char lx \<noteq> NUL \<and> ia (current_char lx) \<and> isalnum (current_char lx) \<longrightarrow>
      (\<exists>lx'. Frost_nextToken ia (Some lx) =
         Some (Inr (Some \<lparr>lexeme = takeWhile isalnum (drop (index lx) (source lx)),
                          type = TOKEN_ID\<rparr>, Some lx')) \<and>
         takeWhile isalnum (drop (index lx) (source lx)) \<noteq> [] \<and>
         lexer_ok lx' \<and> source lx' = source lx \<and>
         index lx + length (takeWhile isalnum (drop (index lx) (source lx))) \<le> index lx' \<and>
         index lx' \<le> source_size lx)) \<and>
   (ia CHR ''i'' \<longrightarrow>
      Frost_nextToken ia (Frost_initLexer (Some ''if'')) =
        Some (Inr (Some \<lparr>lexeme = ''if'', type = TOKEN_ID\<rparr>,
                   Some \<lparr>source = ''if'', current_char = NUL, source_size = 2, index = 2\<rparr>)) \<and>
      Frost_nextToken ia (Frost_initLexer (Some ''ifx'')) =
        Some (Inr (Some \<lparr>lexeme = ''ifx'', type = TOKEN_ID\<rparr>,
                   Some \<lparr>source = ''ifx'', current_char = NUL, source_size = 3, index = 3\<rparr>))) \<and>
   (ia CHR ''w'' \<longrightarrow>
      Frost_nextToken ia (Frost_initLexer (Some ''while'')) =
        Some (Inr (Some \<lparr>lexeme = ''while'', type = TOKEN_ID\<rparr>,
                   Some \<lparr>source = ''while'', current_char = NUL, source_size = 5, index = 5\<rparr>))) \<and>
   (ia CHR ''r'' \<longrightarrow>
      Frost_nextToken ia (Frost_initLexer (Some ''return'')) =
        Some (Inr (Some \<lparr>lexeme = ''return'', type = TOKEN_ID\<rparr>,
                   Some \<lparr>source = ''return'', current_char = NUL, source_size = 6, index = 6\<rparr>)))"
proof -
  have g: "\<exists>lx'. Frost_nextToken ia (Some lx) =
         Some (Inr (Some \<lparr>lexeme = takeWhile isalnum (drop (index lx) (source lx)),
                          type = TOKEN_ID\<rparr>, Some lx')) \<and>
         takeWhile isalnum (drop (index lx) (source lx)) \<noteq> [] \<and>
         lexer_ok lx' \<and> source lx' = source lx \<and>
         index lx + length (takeWhile isalnum (drop (index lx) (source lx))) \<le> index lx' \<and>
         index lx' \<le> source_size lx"
    if ok: "lexer_ok lx" and n: "current_char lx \<noteq> NUL" and a: "ia (current_char lx)"
      and al: "isalnum (current_char lx)"
  proof -
    let ?s = "source lx" and ?i = "index lx"
    let ?w = "takeWhile isalnum (drop ?i ?s)"
    let ?j = "min (Suc (?i + length ?w)) (strlen ?s)"
    have eq: "lx = lexer_at ?s ?i" using ok by (rule lexer_ok_eq)
    have le: "?i \<le> strlen ?s" using ok by (simp add: lexer_ok_def)
    have sz: "source_size lx = strlen ?s" using eq by (metis source_size_lexer_at)
    have lt: "?i < strlen ?s"
      using current_char_lexer_at [OF le] n eq le by (cases "?i = strlen ?s") auto
    then have len: "?i < length ?s" using strlen_le_length [of ?s] by simp
    then have "current_char (lexer_at ?s ?i) = ?s ! ?i"
      by (simp add: lexer_at_def nth_append)
    then have c: "current_char lx = ?s ! ?i" using eq by simp
    have d: "drop ?i ?s = ?s ! ?i # drop (Suc ?i) ?s" using len by (simp add: Cons_nth_drop_Suc)
    have ne: "?w \<noteq> []" using al c d by simp
    have w: "?i + length ?w \<le> strlen ?s" using le by (rule takeWhile_isalnum_within)
    have "Frost_nextToken ia (Some (lexer_at ?s ?i)) =
        Some (Inr (Some \<lparr>lexeme = ?w, type = TOKEN_ID\<rparr>, Some (lexer_at ?s ?j)))"
      using a c by (intro Frost_nextToken_identifier [of ?i ?s ia, OF lt]) simp
    then have r: "Frost_nextToken ia (Some lx) =
        Some (Inr (Some \<lparr>lexeme = ?w, type = TOKEN_ID\<rparr>, Some (lexer_at ?s ?j)))"
      using eq by simp
    have "lexer_ok (lexer_at ?s ?j)" by (rule lexer_ok_lexer_at) simp
    moreover have "?i + length ?w \<le> index (lexer_at ?s ?j)" using w by simp
    moreover have "index (lexer_at ?s ?j) \<le> source_size lx" using sz by simp
    ultimately show ?thesis using r ne by (intro exI [of _ "lexer_at ?s ?j"]) simp
  qed
  have e1: "Frost_nextToken ia (Frost_initLexer (Some ''if'')) =
        Some (Inr (Some \<lparr>lexeme = ''if'', type = TOKEN_ID\<rparr>,
                   Some \<lparr>source = ''if'', current_char = NUL, source_size = 2, index = 2\<rparr>)) \<and>
      Frost_nextToken ia (Frost_initLexer (Some ''ifx'')) =
        Some (Inr (Some \<lparr>lexeme = ''ifx'', type = TOKEN_ID\<rparr>,
                   Some \<lparr>source = ''ifx'', current_char = NUL, source_size = 3, index = 3\<rparr>))"
    if "ia CHR ''i''"
    using that
    by (simp add: Frost_initLexer_lexer_at Frost_nextToken_identifier strlen_def
        isalpha_def isalnum_def isdigit_def NUL_def)
       (simp add: lexer_at_def strlen_def NUL_def)
  have e2: "Frost_nextToken ia (Frost_initLexer (Some ''while'')) =
        Some (Inr (Some \<lparr>lexeme = ''while'', type = TOKEN_ID\<rparr>,
                   Some \<lparr>source = ''while'', current_char = NUL, source_size = 5, index = 5\<rparr>))"
    if "ia CHR ''w''"
    using that
    by (simp add: Frost_initLexer_lexer_at Frost_nextToken_identifier strlen_def
        isalpha_def isalnum_def isdigit_def NUL_def)
       (simp add: lexer_at_def strlen_def NUL_def)
  have e3: "Frost_nextToken ia (Frost_initLexer (Some ''return'')) =
        Some (Inr (Some \<lparr>lexeme = ''return'', type = TOKEN_ID\<rparr>,
                   Some \<lparr>source = ''return'', current_char = NUL, source_size = 6, index = 6\<rparr>))"
    if "ia CHR ''r''"
    using that
    by (simp add: Frost_initLexer_lexer_at Frost_nextToken_identifier strlen_def
        isalpha_def isalnum_def isdigit_def NUL_def)
       (simp add: lexer_at_def strlen_def NUL_def)
  from g e1 e2 e3 show ?thesis by blast
qed

theorem nextToken_identifier_kind_witness:
  "lexer_ok \<lparr>source = ''ab cd'', current_char = CHR ''c'', source_size = 5, index = 3\<rparr> \<and>
   current_char \<lparr>source = ''ab cd'', current_char = CHR ''c'', source_size = 5, index = 3\<rparr>
     \<noteq> NUL \<and>
   isaalpha_spec
     (current_char \<lparr>source = ''ab cd'', current_char = CHR ''c'', source_size = 5, index = 3\<rparr>) \<and>
   isalnum
     (current_char \<lparr>source = ''ab cd'', current_char = CHR ''c'', source_size = 5, index = 3\<rparr>) \<and>
   (\<exists>lx'. Frost_nextToken isaalpha_spec
       (Some \<lparr>source = ''ab cd'', current_char = CHR ''c'', source_size = 5, index = 3\<rparr>) =
       Some (Inr (Some \<lparr>lexeme = ''cd'', type = TOKEN_ID\<rparr>, Some lx')) \<and>
       lexer_ok lx' \<and> source lx' = ''ab cd'' \<and> 5 \<le> index lx' \<and> index lx' \<le> 5) \<and>
   isaalpha_spec CHR ''i'' \<and> isaalpha_spec CHR ''w'' \<and> isaalpha_spec CHR ''r'' \<and>
   Frost_nextToken isaalpha_spec (Frost_initLexer (Some ''while'')) =
     Some (Inr (Some \<lparr>lexeme = ''while'', type = TOKEN_ID\<rparr>,
                Some \<lparr>source = ''while'', current_char = NUL, source_size = 5, index = 5\<rparr>)) \<and>
   Frost_nextToken isaalpha_spec (Frost_initLexer (Some ''return'')) =
     Some (Inr (Some \<lparr>lexeme = ''return'', type = TOKEN_ID\<rparr>,
                Some \<lparr>source = ''return'', current_char = NUL, source_size = 6, index = 6\<rparr>)) \<and>
   Frost_nextToken isaalpha_spec (Frost_initLexer (Some ''ifx'')) =
     Some (Inr (Some \<lparr>lexeme = ''ifx'', type = TOKEN_ID\<rparr>,
                Some \<lparr>source = ''ifx'', current_char = NUL, source_size = 3, index = 3\<rparr>))"
  using nextToken_identifier_kind
          [of "\<lparr>source = ''ab cd'', current_char = CHR ''c'', source_size = 5, index = 3\<rparr>"
              isaalpha_spec]
  by (simp add: lexer_ok_def lexer_at_def strlen_def char_class_defs)

text \<open>
  C3 as the spec states it fails: the source \<open>if\<close> comes back with the kind
  \<^verbatim>\<open>TOKEN_ID\<close>, which is not \<^verbatim>\<open>TOKEN_IF\<close>, whether the classifier is the spec's or the
  library's \<^verbatim>\<open>isalpha\<close>, and on \<open>a_b\<close> the lexeme stops before the underscore.
\<close>

theorem nextToken_if_not_keyword:
  "Frost_nextToken isaalpha_spec (Frost_initLexer (Some ''if'')) =
     Some (Inr (Some \<lparr>lexeme = ''if'', type = TOKEN_ID\<rparr>,
                Some \<lparr>source = ''if'', current_char = NUL, source_size = 2, index = 2\<rparr>)) \<and>
   Frost_nextToken isalpha (Frost_initLexer (Some ''if'')) =
     Some (Inr (Some \<lparr>lexeme = ''if'', type = TOKEN_ID\<rparr>,
                Some \<lparr>source = ''if'', current_char = NUL, source_size = 2, index = 2\<rparr>)) \<and>
   TOKEN_ID \<noteq> TOKEN_IF \<and>
   Frost_nextToken isaalpha_spec (Frost_initLexer (Some ''a_b'')) =
     Some (Inr (Some \<lparr>lexeme = ''a'', type = TOKEN_ID\<rparr>,
                Some \<lparr>source = ''a_b'', current_char = CHR ''b'', source_size = 3, index = 2\<rparr>))"
  by (simp add: Frost_initLexer_lexer_at Frost_nextToken_identifier strlen_def char_class_defs)
     (simp add: lexer_at_def strlen_def NUL_def)

text \<open>
  C4 (length conservation). The source \<open>a+b\<close> holds no white space and no comment, and
  its tokenization reaches the end; the lexemes returned are \<open>a\<close> and \<open>b\<close>, two
  characters out of three. The \<open>+\<close> is lost: \<^verbatim>\<open>Frost_lexerParseID\<close> stops on it and
  \<^verbatim>\<open>Frost_lexerAdvanceWith\<close> then steps over it.
\<close>

theorem tokenize_loses_character:
  "tokenize isaalpha_spec (Frost_initLexer (Some ''a+b'')) =
     Some (Inr [\<lparr>lexeme = ''a'', type = TOKEN_ID\<rparr>, \<lparr>lexeme = ''b'', type = TOKEN_ID\<rparr>]) \<and>
   filter (\<lambda>c. iswhite c \<or> c = CHR ''/'') ''a+b'' = [] \<and>
   lexemes_length [\<lparr>lexeme = ''a'', type = TOKEN_ID\<rparr>, \<lparr>lexeme = ''b'', type = TOKEN_ID\<rparr>] = 2 \<and>
   length ''a+b'' = 3"
  by (simp add: tokenize_a_plus_b lexemes_length_def iswhite_def)

text \<open>
  C5 (\<^verbatim>\<open>Frost_lexerPeek\<close>). At the start of \<open>abc\<close> the offset \<open>-1\<close> is converted to
  \<^verbatim>\<open>size_t\<close> and the sum wraps to \<open>2 ^ 64 - 1\<close>; \<^verbatim>\<open>MIN\<close> cuts it to the size, and the
  character read is the terminator. The claim asks for the character at
  \<open>clamp (0 - 1) 0 3 = 0\<close>, the first one, and the function's own description for a
  space when the offset is out of bounds: the code returns neither.
\<close>

theorem lexerPeek_negative_not_clamped:
  "Frost_lexerPeek_index \<lparr>source = ''abc'', current_char = CHR ''a'', source_size = 3, index = 0\<rparr>
     (- 1) = 3 \<and>
   Frost_lexerPeek (Frost_initLexer (Some ''abc'')) (- 1) = Inr NUL \<and>
   (''abc'' @ [NUL]) ! nat (max 0 (min (int (length ''abc'')) (0 + sint (- 1 :: 32 word))))
     = CHR ''a'' \<and>
   CHR ''a'' \<noteq> NUL \<and> CHR '' '' \<noteq> NUL"
  by (simp add: Frost_initLexer_def Frost_lexerPeek_def Frost_lexerPeek_index_def MIN_macro_def
      strlen_def read_at_def NUL_def)

text \<open>
  C6 (white space). \<^verbatim>\<open>Frost_nextToken\<close> does not call \<^verbatim>\<open>Frost_lexerSkipWhiteSpace\<close>:
  on the source \<open>  if  \<close> its first call never returns, and so the tokenization never
  yields a sequence of kinds, while the source \<open>if\<close> yields the single kind
  \<^verbatim>\<open>TOKEN_ID\<close>.
\<close>

theorem tokenize_hangs_on_whitespace:
  "Frost_nextToken isaalpha_spec (Frost_initLexer (Some ''  if  '')) = None \<and>
   tokenize isaalpha_spec (Frost_initLexer (Some ''  if  '')) = None \<and>
   map_option (map_sum id kinds) (tokenize isaalpha_spec (Frost_initLexer (Some ''if''))) =
     Some (Inr [TOKEN_ID])"
  by (simp add: tokenize_if kinds_def)
     (simp add: Frost_initLexer_lexer_at tokenize_lexer_at_hangs Frost_nextToken_lexer_at_hangs
      strlen_def char_class_defs)

text \<open>
  C7 (\<^verbatim>\<open>Frost_lexerAdvance\<close>). On a lexer whose size does not exceed its buffer, the call
  succeeds, and it moves the cursor by one and reloads the lookahead exactly when
  \<open>index < source_size\<close> and the lookahead is not the terminator; otherwise the lexer
  is returned as it was. At the end this holds for any lexer at all, and for any number
  of calls in a row.
\<close>

theorem lexerAdvance_correct:
  "(source_size lx \<le> length (source lx) \<longrightarrow>
      Frost_lexerAdvance (Some lx) =
        Inr (FUNCTION_SUCESS,
             Some (if index lx < source_size lx \<and> current_char lx \<noteq> NUL
                   then lx\<lparr>index := index lx + 1,
                           current_char := (source lx @ [NUL]) ! (index lx + 1)\<rparr>
                   else lx))) \<and>
   (\<not> (index lx < source_size lx \<and> current_char lx \<noteq> NUL) \<longrightarrow>
      Frost_lexerAdvance (Some lx) = Inr (FUNCTION_SUCESS, Some lx) \<and>
      lexerAdvance_times n (Some lx) = Inr (Some lx))"
proof (cases "index lx < source_size lx \<and> current_char lx \<noteq> NUL")
  case True
  then show ?thesis using lexerAdvance_step [of lx] by simp
next
  case False
  then show ?thesis
    using lexerAdvance_at_end [of lx] lexerAdvance_times_at_end [of lx n] by auto
qed

theorem lexerAdvance_correct_witness:
  "source_size \<lparr>source = ''ab'', current_char = CHR ''a'', source_size = 2, index = 0\<rparr>
     \<le> length (source \<lparr>source = ''ab'', current_char = CHR ''a'', source_size = 2, index = 0\<rparr>) \<and>
   Frost_lexerAdvance
     (Some \<lparr>source = ''ab'', current_char = CHR ''a'', source_size = 2, index = 0\<rparr>) =
     Inr (FUNCTION_SUCESS,
          Some \<lparr>source = ''ab'', current_char = CHR ''b'', source_size = 2, index = 1\<rparr>) \<and>
   \<not> (index \<lparr>source = ''ab'', current_char = NUL, source_size = 2, index = 2\<rparr>
        < source_size \<lparr>source = ''ab'', current_char = NUL, source_size = 2, index = 2\<rparr> \<and>
      current_char \<lparr>source = ''ab'', current_char = NUL, source_size = 2, index = 2\<rparr> \<noteq> NUL) \<and>
   Frost_lexerAdvance
     (Some \<lparr>source = ''ab'', current_char = NUL, source_size = 2, index = 2\<rparr>) =
     Inr (FUNCTION_SUCESS,
          Some \<lparr>source = ''ab'', current_char = NUL, source_size = 2, index = 2\<rparr>) \<and>
   lexerAdvance_times 3
     (Some \<lparr>source = ''ab'', current_char = NUL, source_size = 2, index = 2\<rparr>) =
     Inr (Some \<lparr>source = ''ab'', current_char = NUL, source_size = 2, index = 2\<rparr>)"
  using lexerAdvance_correct
          [of "\<lparr>source = ''ab'', current_char = CHR ''a'', source_size = 2, index = 0\<rparr>" 0]
        lexerAdvance_correct
          [of "\<lparr>source = ''ab'', current_char = NUL, source_size = 2, index = 2\<rparr>" 3]
  by (simp add: NUL_def)

text \<open>
  C8 (the cursor). \<^verbatim>\<open>Frost_initLexer\<close> starts at position 0, inside the size. From a
  lexer whose cursor is inside the size, each of \<^verbatim>\<open>Frost_lexerAdvance\<close>,
  \<^verbatim>\<open>Frost_lexerSkipWhiteSpace\<close>, \<^verbatim>\<open>Frost_lexerParseID\<close> and \<^verbatim>\<open>Frost_nextToken\<close>, when it
  returns, leaves a lexer whose cursor has not moved back and is still inside the same
  size. On a consistent lexer the first three do return. \<^verbatim>\<open>Frost_lexerPeek\<close> returns a
  character only and writes to nothing: its model has no lexer to return.
\<close>

theorem position_monotone_bounded:
  "(\<forall>lx0. Frost_initLexer (Some s) = Some lx0 \<longrightarrow> index lx0 = 0 \<and> index lx0 \<le> source_size lx0) \<and>
   (index lx \<le> source_size lx \<longrightarrow>
      (\<forall>r lexer'. Frost_lexerAdvance (Some lx) = Inr (r, lexer') \<longrightarrow>
         (\<exists>lx'. lexer' = Some lx' \<and> position_kept lx lx')) \<and>
      (\<forall>r lexer'. Frost_lexerSkipWhiteSpace (Some lx) = Some (Inr (r, lexer')) \<longrightarrow>
         (\<exists>lx'. lexer' = Some lx' \<and> position_kept lx lx')) \<and>
      (\<forall>t lexer'. Frost_lexerParseID (Some lx) = Some (Inr (t, lexer')) \<longrightarrow>
         (\<exists>lx'. lexer' = Some lx' \<and> position_kept lx lx')) \<and>
      (\<forall>t lexer'. Frost_nextToken ia (Some lx) = Some (Inr (t, lexer')) \<longrightarrow>
         (\<exists>lx'. lexer' = Some lx' \<and> position_kept lx lx'))) \<and>
   (lexer_ok lx \<longrightarrow>
      (\<exists>lx'. Frost_lexerAdvance (Some lx) = Inr (FUNCTION_SUCESS, Some lx')) \<and>
      (\<exists>lx'. Frost_lexerSkipWhiteSpace (Some lx) = Some (Inr (FUNCTION_SUCESS, Some lx'))) \<and>
      (\<exists>t lx'. Frost_lexerParseID (Some lx) = Some (Inr (Some t, Some lx'))))"
proof -
  have a: "\<forall>lx0. Frost_initLexer (Some s) = Some lx0 \<longrightarrow>
      index lx0 = 0 \<and> index lx0 \<le> source_size lx0"
    by (auto simp add: Frost_initLexer_def)
  have c: "(\<exists>lx'. Frost_lexerAdvance (Some lx) = Inr (FUNCTION_SUCESS, Some lx')) \<and>
      (\<exists>lx'. Frost_lexerSkipWhiteSpace (Some lx) = Some (Inr (FUNCTION_SUCESS, Some lx'))) \<and>
      (\<exists>t lx'. Frost_lexerParseID (Some lx) = Some (Inr (Some t, Some lx')))"
    if ok: "lexer_ok lx"
  proof -
    have eq: "lx = lexer_at (source lx) (index lx)" using ok by (rule lexer_ok_eq)
    have le: "index lx \<le> strlen (source lx)" using ok by (simp add: lexer_ok_def)
    from Frost_lexerAdvance_lexer_at [OF le] Frost_lexerSkipWhiteSpace_lexer_at [OF le]
      Frost_lexerParseID_lexer_at [OF le] eq
    show ?thesis by simp
  qed
  from a c Frost_lexerAdvance_kept [of lx] Frost_lexerSkipWhiteSpace_kept [of lx]
    Frost_lexerParseID_kept [of lx] Frost_nextToken_kept [of ia lx]
  show ?thesis by blast
qed

theorem position_monotone_bounded_witness:
  "index \<lparr>source = ''a b'', current_char = CHR '' '', source_size = 3, index = 1\<rparr>
     \<le> source_size \<lparr>source = ''a b'', current_char = CHR '' '', source_size = 3, index = 1\<rparr> \<and>
   lexer_ok \<lparr>source = ''a b'', current_char = CHR '' '', source_size = 3, index = 1\<rparr> \<and>
   Frost_lexerAdvance
     (Some \<lparr>source = ''a b'', current_char = CHR '' '', source_size = 3, index = 1\<rparr>) =
     Inr (FUNCTION_SUCESS,
          Some \<lparr>source = ''a b'', current_char = CHR ''b'', source_size = 3, index = 2\<rparr>) \<and>
   Frost_lexerSkipWhiteSpace
     (Some \<lparr>source = ''a b'', current_char = CHR '' '', source_size = 3, index = 1\<rparr>) =
     Some (Inr (FUNCTION_SUCESS,
          Some \<lparr>source = ''a b'', current_char = CHR ''b'', source_size = 3, index = 2\<rparr>)) \<and>
   position_kept \<lparr>source = ''a b'', current_char = CHR '' '', source_size = 3, index = 1\<rparr>
     \<lparr>source = ''a b'', current_char = CHR ''b'', source_size = 3, index = 2\<rparr> \<and>
   Frost_lexerParseID
     (Some \<lparr>source = ''ab cd'', current_char = CHR ''a'', source_size = 5, index = 0\<rparr>) =
     Some (Inr (Some \<lparr>lexeme = ''ab'', type = TOKEN_ID\<rparr>,
          Some \<lparr>source = ''ab cd'', current_char = CHR '' '', source_size = 5, index = 2\<rparr>)) \<and>
   position_kept \<lparr>source = ''ab cd'', current_char = CHR ''a'', source_size = 5, index = 0\<rparr>
     \<lparr>source = ''ab cd'', current_char = CHR '' '', source_size = 5, index = 2\<rparr> \<and>
   Frost_nextToken isaalpha_spec
     (Some \<lparr>source = ''ab cd'', current_char = CHR ''a'', source_size = 5, index = 0\<rparr>) =
     Some (Inr (Some \<lparr>lexeme = ''ab'', type = TOKEN_ID\<rparr>,
          Some \<lparr>source = ''ab cd'', current_char = CHR ''c'', source_size = 5, index = 3\<rparr>)) \<and>
   position_kept \<lparr>source = ''ab cd'', current_char = CHR ''a'', source_size = 5, index = 0\<rparr>
     \<lparr>source = ''ab cd'', current_char = CHR ''c'', source_size = 5, index = 3\<rparr> \<and>
   Frost_initLexer (Some ''ab cd'') =
     Some \<lparr>source = ''ab cd'', current_char = CHR ''a'', source_size = 5, index = 0\<rparr>"
proof -
  have l1: "\<lparr>source = ''a b'', current_char = CHR '' '', source_size = 3, index = 1\<rparr> =
      lexer_at ''a b'' 1"
    by (simp add: lexer_at_def strlen_def NUL_def)
  have l2: "\<lparr>source = ''ab cd'', current_char = CHR ''a'', source_size = 5, index = 0\<rparr> =
      lexer_at ''ab cd'' 0"
    by (simp add: lexer_at_def strlen_def NUL_def)
  have s1: "strlen ''a b'' = 3" and s2: "strlen ''ab cd'' = 5"
    by (simp_all add: strlen_def NUL_def)
  have a: "Frost_lexerAdvance (Some (lexer_at ''a b'' 1)) =
     Inr (FUNCTION_SUCESS,
          Some \<lparr>source = ''a b'', current_char = CHR ''b'', source_size = 3, index = 2\<rparr>)"
    by (simp add: Frost_lexerAdvance_lexer_at s1) (simp add: lexer_at_def s1)
  have b: "Frost_lexerSkipWhiteSpace (Some (lexer_at ''a b'' 1)) =
     Some (Inr (FUNCTION_SUCESS,
          Some \<lparr>source = ''a b'', current_char = CHR ''b'', source_size = 3, index = 2\<rparr>))"
    by (simp add: Frost_lexerSkipWhiteSpace_lexer_at s1 iswhite_def)
       (simp add: lexer_at_def s1)
  have c: "Frost_lexerParseID (Some (lexer_at ''ab cd'' 0)) =
     Some (Inr (Some \<lparr>lexeme = ''ab'', type = TOKEN_ID\<rparr>,
          Some \<lparr>source = ''ab cd'', current_char = CHR '' '', source_size = 5, index = 2\<rparr>))"
    by (simp add: Frost_lexerParseID_lexer_at s2 char_class_defs)
       (simp add: lexer_at_def s2)
  have d: "Frost_nextToken isaalpha_spec (Some (lexer_at ''ab cd'' 0)) =
     Some (Inr (Some \<lparr>lexeme = ''ab'', type = TOKEN_ID\<rparr>,
          Some \<lparr>source = ''ab cd'', current_char = CHR ''c'', source_size = 5, index = 3\<rparr>))"
    by (simp add: Frost_nextToken_identifier s2 char_class_defs)
       (simp add: lexer_at_def s2)
  have e: "Frost_initLexer (Some ''ab cd'') = Some (lexer_at ''ab cd'' 0)"
    by (rule Frost_initLexer_lexer_at)
  have ok: "lexer_ok (lexer_at ''a b'' 1)" by (rule lexer_ok_lexer_at) (simp add: s1)
  have b1: "index (lexer_at ''a b'' 1) \<le> source_size (lexer_at ''a b'' 1)"
    by (simp add: s1)
  have b2: "index (lexer_at ''ab cd'' 0) \<le> source_size (lexer_at ''ab cd'' 0)"
    by simp
  note t1 = position_monotone_bounded [of "''ab cd''" "lexer_at ''a b'' 1" isaalpha_spec]
  note t2 = position_monotone_bounded [of "''ab cd''" "lexer_at ''ab cd'' 0" isaalpha_spec]
  from t1 b1 a have k1: "position_kept (lexer_at ''a b'' 1)
      \<lparr>source = ''a b'', current_char = CHR ''b'', source_size = 3, index = 2\<rparr>"
    by blast
  from t2 b2 c have k2: "position_kept (lexer_at ''ab cd'' 0)
      \<lparr>source = ''ab cd'', current_char = CHR '' '', source_size = 5, index = 2\<rparr>"
    by blast
  from t2 b2 d have k3: "position_kept (lexer_at ''ab cd'' 0)
      \<lparr>source = ''ab cd'', current_char = CHR ''c'', source_size = 5, index = 3\<rparr>"
    by blast
  show ?thesis
    unfolding l1 l2 by (intro conjI; fact)
qed

text \<open>
  C9 (\<^verbatim>\<open>Frost_initToken\<close> and the null lexeme). Whatever the kind, a null lexeme gives
  \<^verbatim>\<open>NULL\<close>; so at the terminator \<^verbatim>\<open>Frost_nextToken\<close>, which passes \<^verbatim>\<open>0u\<close> as the
  lexeme, returns \<^verbatim>\<open>NULL\<close> and leaves the lexer as it was.
\<close>

theorem initToken_null_lexeme:
  "Frost_initToken None kind = None \<and>
   (current_char lx = NUL \<longrightarrow>
      Frost_nextToken ia (Some lx) = Some (Inr (None, Some lx)))"
  by (simp add: nextToken_at_end Frost_initToken_def)

theorem initToken_null_lexeme_witness:
  "current_char \<lparr>source = ''x'', current_char = NUL, source_size = 1, index = 1\<rparr> = NUL \<and>
   Frost_initToken None TOKEN_EOF = None \<and>
   Frost_nextToken isaalpha_spec
     (Some \<lparr>source = ''x'', current_char = NUL, source_size = 1, index = 1\<rparr>) =
     Some (Inr (None, Some \<lparr>source = ''x'', current_char = NUL, source_size = 1, index = 1\<rparr>))"
  using initToken_null_lexeme
          [of TOKEN_EOF "\<lparr>source = ''x'', current_char = NUL, source_size = 1, index = 1\<rparr>"
              isaalpha_spec]
  by simp

text \<open>
  C10 (null lexer). \<^verbatim>\<open>Frost_lexerAdvance\<close> returns \<^verbatim>\<open>-ENOMEM\<close>, \<^verbatim>\<open>Frost_nextToken\<close> and
  \<^verbatim>\<open>Frost_lexerParseID\<close> return \<^verbatim>\<open>NULL\<close>, \<^verbatim>\<open>Frost_lexerPeek\<close> returns a space, and
  nothing is touched. \<^verbatim>\<open>Frost_lexerSkipWhiteSpace\<close>, however, returns
  \<^verbatim>\<open>FUNCTION_SUCESS\<close>, which is not \<^verbatim>\<open>-ENOMEM\<close>.
\<close>

theorem null_lexer_results:
  "Frost_lexerSkipWhiteSpace None = Some (Inr (FUNCTION_SUCESS, None)) \<and>
   FUNCTION_SUCESS \<noteq> - ENOMEM \<and>
   Frost_lexerAdvance None = Inr (- ENOMEM, None) \<and>
   Frost_nextToken ia None = Some (Inr (None, None)) \<and>
   Frost_lexerParseID None = Some (Inr (None, None)) \<and>
   Frost_lexerPeek None offset = Inr (CHR '' '')"
  by (simp add: Frost_lexerSkipWhiteSpace_def FUNCTION_SUCESS_def ENOMEM_def
      Frost_lexerAdvance_def Frost_nextToken_def Frost_lexerParseID_def Frost_lexerPeek_def)

end
